theory Spec2Isabelle
  imports Complex_Main "HOL-Library.AList"
begin

section \<open>Dates and errors\<close>

text \<open>
  A \<^verbatim>\<open>datetime.date\<close> is modelled by its proleptic Gregorian ordinal
  (\<^verbatim>\<open>date.toordinal()\<close>): comparison of dates is comparison of ordinals and adding
  \<^verbatim>\<open>timedelta(days=n)\<close> adds \<open>n\<close> to the ordinal. The type is bounded: ordinals run
  from 1 (0001-01-01) to 3652059 (9999-12-31), and an addition that leaves this range
  raises \<^verbatim>\<open>OverflowError\<close>.
\<close>

type_synonym date = int

definition MAXORDINAL :: int where
  "MAXORDINAL = 3652059"

definition valid_date :: "date \<Rightarrow> bool" where
  "valid_date d = (1 \<le> d \<and> d \<le> MAXORDINAL)"

text \<open>
  The exceptions the library can raise: \<^verbatim>\<open>ValueError\<close> (duplicate name), \<^verbatim>\<open>KeyError\<close>
  (name not found) and \<^verbatim>\<open>OverflowError\<close> (date arithmetic out of range).
\<close>

datatype error = ValueError | KeyError | OverflowError

text \<open>\<^verbatim>\<open>d + datetime.timedelta(days=n)\<close>.\<close>

definition date_add_days :: "date \<Rightarrow> int \<Rightarrow> error + date" where
  "date_add_days d n =
     (let ord = d + n
      in if 0 < ord \<and> ord \<le> MAXORDINAL then Inr ord else Inl OverflowError)"

section \<open>Subscription\<close>

text \<open>
  The dataclass \<^verbatim>\<open>Subscription\<close>. The cost is kept polymorphic: the source annotates it
  as \<^verbatim>\<open>float\<close>, and the only thing the library does with it is add it up.
\<close>

record 'c subscription =
  name :: string
  cost :: 'c
  renewal_date :: date
  active :: bool

text \<open>
  The generated constructor \<^verbatim>\<open>Subscription(name, cost, renewal_date, active=True)\<close>:
  the last argument is optional, \<open>None\<close> stands for a call that omits it.
\<close>

definition Subscription :: "string \<Rightarrow> 'c \<Rightarrow> date \<Rightarrow> bool option \<Rightarrow> 'c subscription" where
  "Subscription n c d a =
     \<lparr>name = n, cost = c, renewal_date = d,
      active = (case a of None \<Rightarrow> True | Some b \<Rightarrow> b)\<rparr>"

text \<open>\<^verbatim>\<open>Subscription.cancel\<close>: \<^verbatim>\<open>self.active = False\<close>.\<close>

definition cancel :: "'c subscription \<Rightarrow> 'c subscription" where
  "cancel self = self\<lparr>active := False\<rparr>"

text \<open>
  \<^verbatim>\<open>Subscription.renew\<close>. The first argument is the reading of the system clock
  (\<^verbatim>\<open>datetime.date.today()\<close>), used when \<open>today\<close> is omitted. The method assigns
  \<open>active\<close> before it computes the new date, so when the date addition raises, the object
  is left with \<open>active = True\<close> and its old renewal date; the model returns the outcome
  together with the object as the call leaves it.
\<close>

definition renew ::
  "date \<Rightarrow> 'c subscription \<Rightarrow> date option \<Rightarrow> (error + unit) \<times> 'c subscription" where
  "renew clock self today =
     (let today = (case today of None \<Rightarrow> clock | Some d \<Rightarrow> d);
          self = self\<lparr>active := True\<rparr>
      in case date_add_days today 30 of
           Inl e \<Rightarrow> (Inl e, self)
         | Inr d \<Rightarrow> (Inr (), self\<lparr>renewal_date := d\<rparr>))"

section \<open>The dictionary of the manager\<close>

text \<open>
  \<^verbatim>\<open>SubscriptionManager\<close> has one attribute, the dict \<^verbatim>\<open>_subscriptions\<close>. A Python dict
  iterates in insertion order, so it is modelled as an association list in that order:
  storing under a new key appends, storing under an existing key replaces the value where
  it stands, deleting drops the pair. Each slot holds its own subscription object, so an
  in-place mutation of a stored object is the replacement of the value in its slot.
  A caller that keeps a reference to a stored object can call \<open>cancel\<close> and \<open>renew\<close> on
  it; for an object stored under its name these are the manager's \<open>cancel_subscription\<close>
  and \<open>renew_subscription\<close>. Assignments to the fields of a stored object from outside the
  two classes are not part of the model.
\<close>

type_synonym 'c manager = "(string \<times> 'c subscription) list"

definition dict_contains :: "('k \<times> 'v) list \<Rightarrow> 'k \<Rightarrow> bool" where
  "dict_contains d k = (k \<in> set (map fst d))"

definition dict_getitem :: "('k \<times> 'v) list \<Rightarrow> 'k \<Rightarrow> error + 'v" where
  "dict_getitem d k = (case map_of d k of None \<Rightarrow> Inl KeyError | Some v \<Rightarrow> Inr v)"

definition dict_setitem :: "('k \<times> 'v) list \<Rightarrow> 'k \<Rightarrow> 'v \<Rightarrow> ('k \<times> 'v) list" where
  "dict_setitem d k v = AList.update k v d"

definition dict_delitem :: "('k \<times> 'v) list \<Rightarrow> 'k \<Rightarrow> ('k \<times> 'v) list" where
  "dict_delitem d k = AList.delete k d"

definition dict_values :: "('k \<times> 'v) list \<Rightarrow> 'v list" where
  "dict_values d = map snd d"

text \<open>The builtin \<^verbatim>\<open>sum\<close>: start at 0 and add the items from left to right.\<close>

definition py_sum :: "('c::{zero,plus}) list \<Rightarrow> 'c" where
  "py_sum xs = foldl (+) 0 xs"

section \<open>SubscriptionManager\<close>

text \<open>
  The methods of the manager, \<open>self\<close> first. A method that can raise or assign returns its
  outcome and the manager as the call leaves it. The optional \<open>today\<close> is an option and the
  clock reading is an argument, as for \<open>renew\<close>; the flag \<open>active_only\<close> is passed by the caller
  (the source defaults it to \<open>False\<close> in \<open>list_subscriptions\<close> and to \<open>True\<close> in
  \<open>total_monthly_cost\<close>).
\<close>

definition init_manager :: "'c manager" where
  "init_manager = []"

definition add_subscription ::
  "'c manager \<Rightarrow> 'c subscription \<Rightarrow> (error + unit) \<times> 'c manager" where
  "add_subscription self subscription =
     (if dict_contains self (name subscription) then (Inl ValueError, self)
      else (Inr (), dict_setitem self (name subscription) subscription))"

definition remove_subscription ::
  "'c manager \<Rightarrow> string \<Rightarrow> (error + unit) \<times> 'c manager" where
  "remove_subscription self n =
     (if \<not> dict_contains self n then (Inl KeyError, self)
      else (Inr (), dict_delitem self n))"

text \<open>
  The loop of \<^verbatim>\<open>auto_cancel_subscriptions\<close> over \<^verbatim>\<open>list(self._subscriptions.values())\<close>:
  every stored object is visited once, in dict order, and cancelled in place when it is
  active and due.
\<close>

fun auto_cancel_loop :: "'c manager \<Rightarrow> date \<Rightarrow> 'c manager" where
  "auto_cancel_loop [] today = []"
| "auto_cancel_loop ((k, sub) # rest) today =
     (k, if active sub \<and> renewal_date sub \<le> today then cancel sub else sub)
       # auto_cancel_loop rest today"

definition auto_cancel_subscriptions ::
  "date \<Rightarrow> 'c manager \<Rightarrow> date option \<Rightarrow> (error + unit) \<times> 'c manager" where
  "auto_cancel_subscriptions clock self today =
     (let today = (case today of None \<Rightarrow> clock | Some d \<Rightarrow> d)
      in (Inr (), auto_cancel_loop self today))"

definition renew_subscription ::
  "date \<Rightarrow> 'c manager \<Rightarrow> string \<Rightarrow> date option \<Rightarrow> (error + unit) \<times> 'c manager" where
  "renew_subscription clock self n today =
     (if \<not> dict_contains self n then (Inl KeyError, self)
      else case dict_getitem self n of
             Inl e \<Rightarrow> (Inl e, self)
           | Inr sub \<Rightarrow>
               (case renew clock sub today of
                  (r, sub') \<Rightarrow> (r, dict_setitem self n sub')))"

definition cancel_subscription ::
  "'c manager \<Rightarrow> string \<Rightarrow> (error + unit) \<times> 'c manager" where
  "cancel_subscription self n =
     (if \<not> dict_contains self n then (Inl KeyError, self)
      else case dict_getitem self n of
             Inl e \<Rightarrow> (Inl e, self)
           | Inr sub \<Rightarrow> (Inr (), dict_setitem self n (cancel sub)))"

definition get_subscription :: "'c manager \<Rightarrow> string \<Rightarrow> error + 'c subscription" where
  "get_subscription self n =
     (if \<not> dict_contains self n then Inl KeyError else dict_getitem self n)"

definition list_subscriptions :: "'c manager \<Rightarrow> bool \<Rightarrow> 'c subscription list" where
  "list_subscriptions self active_only =
     (if active_only then filter active (dict_values self) else dict_values self)"

definition total_monthly_cost :: "('c::{zero,plus}) manager \<Rightarrow> bool \<Rightarrow> 'c" where
  "total_monthly_cost self active_only =
     py_sum (map cost (list_subscriptions self active_only))"

definition total_savings :: "('c::{zero,plus}) manager \<Rightarrow> 'c" where
  "total_savings self =
     py_sum (map cost (filter (\<lambda>sub. \<not> active sub) (list_subscriptions self False)))"

section \<open>Calls on a manager and runs of calls\<close>

text \<open>
  One call of a public method, with its arguments, and what it returns. A call yields
  the outcome (the exception raised or the value returned) and the manager as the call
  leaves it; the queries have no assignment in their bodies and hand the manager back.
\<close>

datatype 'c call =
    Add "'c subscription"
  | Remove string
  | AutoCancel "date option"
  | Renew string "date option"
  | Cancel string
  | Get string
  | ListSubs bool
  | TotalMonthlyCost bool
  | TotalSavings

datatype 'c retval =
    RNone
  | RSub "'c subscription"
  | RList "'c subscription list"
  | RCost 'c

definition returning_none :: "(error + unit) \<times> 'c manager \<Rightarrow> (error + 'c retval) \<times> 'c manager" where
  "returning_none r = (case r of (Inl e, m) \<Rightarrow> (Inl e, m) | (Inr u, m) \<Rightarrow> (Inr RNone, m))"

fun exec ::
  "date \<Rightarrow> ('c::{zero,plus}) manager \<Rightarrow> 'c call \<Rightarrow> (error + 'c retval) \<times> 'c manager" where
  "exec clock m (Add sub) = returning_none (add_subscription m sub)"
| "exec clock m (Remove n) = returning_none (remove_subscription m n)"
| "exec clock m (AutoCancel today) = returning_none (auto_cancel_subscriptions clock m today)"
| "exec clock m (Renew n today) = returning_none (renew_subscription clock m n today)"
| "exec clock m (Cancel n) = returning_none (cancel_subscription m n)"
| "exec clock m (Get n) =
     (case get_subscription m n of Inl e \<Rightarrow> (Inl e, m) | Inr sub \<Rightarrow> (Inr (RSub sub), m))"
| "exec clock m (ListSubs active_only) = (Inr (RList (list_subscriptions m active_only)), m)"
| "exec clock m (TotalMonthlyCost active_only) =
     (Inr (RCost (total_monthly_cost m active_only)), m)"
| "exec clock m TotalSavings = (Inr (RCost (total_savings m)), m)"

text \<open>
  A run is a sequence of calls, each with the clock reading at the time of the call,
  made on a fresh manager; an exception ends the call that raised it, not the run.
\<close>

definition run_from :: "('c::{zero,plus}) manager \<Rightarrow> (date \<times> 'c call) list \<Rightarrow> 'c manager" where
  "run_from m calls = foldl (\<lambda>m (clock, c). snd (exec clock m c)) m calls"

definition run :: "(date \<times> ('c::{zero,plus}) call) list \<Rightarrow> 'c manager" where
  "run calls = run_from init_manager calls"

section \<open>The invariant of the dict and the order of creation\<close>

text \<open>
  The invariant the manager keeps: every key is the name of the subscription stored under
  it, no key occurs twice, and no two stored subscriptions have the same name.
\<close>

definition manager_inv :: "'c manager \<Rightarrow> bool" where
  "manager_inv m =
     ((\<forall>(k, sub) \<in> set m. k = name sub) \<and>
      distinct (map fst m) \<and>
      distinct (map (\<lambda>(k, sub). name sub) m))"

text \<open>
  The insertion order in the words of the specification, for comparison with the code: the
  calls of a run are numbered from 0, and \<open>created_at\<close> maps every name that has an entry
  after the run to the number of the successful add call that created this entry. An add
  call succeeds when its name has no entry at that moment; a remove call ends the entry of
  its name; no other call creates or ends an entry. No order of entries is kept here: the
  order is the order of these numbers.
\<close>

fun created_step :: "nat \<Rightarrow> (string \<rightharpoonup> nat) \<Rightarrow> 'c call \<Rightarrow> (string \<rightharpoonup> nat)" where
  "created_step t b (Add sub) = (if b (name sub) = None then b(name sub \<mapsto> t) else b)"
| "created_step t b (Remove n) = b(n := None)"
| "created_step t b c = b"

fun created_from ::
  "nat \<Rightarrow> (string \<rightharpoonup> nat) \<Rightarrow> (date \<times> 'c call) list \<Rightarrow> (string \<rightharpoonup> nat)" where
  "created_from t b [] = b"
| "created_from t b ((clock, c) # calls) = created_from (Suc t) (created_step t b c) calls"

definition created_at :: "(date \<times> 'c call) list \<Rightarrow> (string \<rightharpoonup> nat)" where
  "created_at calls = created_from 0 Map.empty calls"

text \<open>
  A list of keys is in creation order at time \<open>t\<close> when it lists exactly the names that
  have an entry, by increasing number of the creating call, all of them before \<open>t\<close>.
\<close>

definition in_creation_order :: "nat \<Rightarrow> (string \<rightharpoonup> nat) \<Rightarrow> string list \<Rightarrow> bool" where
  "in_creation_order t b ks =
     (set ks = dom b \<and>
      sorted_wrt (\<lambda>k k'. the (b k) < the (b k')) ks \<and>
      (\<forall>k i. b k = Some i \<longrightarrow> i < t))"

section \<open>Costs as floating-point numbers\<close>

text \<open>
  The source annotates \<open>cost\<close> as \<^verbatim>\<open>float\<close>, an IEEE 754 binary64 number. A finite
  double is a signed integer significand of at most 53 bits times a power of two:
  \<open>Binary64 m e\<close> is the number \<open>m * 2 ^ e\<close>, so 0.1 is
  \<open>Binary64 3602879701896397 (-55)\<close>. Float addition adds the two numbers exactly and
  rounds the result to 53 bits, to the nearest double and, halfway between two, to the
  one with the even significand. The model covers the range of normal numbers: overflow to
  infinity, subnormal numbers, signed zeros and NaN are left out. \<open>value_of\<close> is the
  number a double stands for; Python compares floats by value, which is \<open>float_eq\<close>, and
  the same number can have several representations.
\<close>

datatype binary64 = Binary64 int int

fun align :: "binary64 \<Rightarrow> int \<Rightarrow> int" where
  "align (Binary64 m e) e0 = m * 2 ^ nat (e - e0)"

fun exponent :: "binary64 \<Rightarrow> int" where
  "exponent (Binary64 m e) = e"

fun value_of :: "binary64 \<Rightarrow> rat" where
  "value_of (Binary64 m e) = of_int m * (if 0 \<le> e then 2 ^ nat e else 1 / 2 ^ nat (- e))"

definition float_eq :: "binary64 \<Rightarrow> binary64 \<Rightarrow> bool" where
  "float_eq x y = (value_of x = value_of y)"

text \<open>The number of binary digits of a natural number.\<close>

fun bit_length :: "nat \<Rightarrow> nat" where
  "bit_length n = (if n = 0 then 0 else Suc (bit_length (n div 2)))"

text \<open>
  \<open>round_shift m k\<close> is \<open>m / 2 ^ k\<close> rounded to the nearest integer, a tie going to the even
  one; \<open>round_binary64 m e\<close> is the double nearest to \<open>m * 2 ^ e\<close>: a significand of more
  than 53 bits loses its low bits by this rounding.
\<close>

definition round_shift :: "int \<Rightarrow> nat \<Rightarrow> int" where
  "round_shift m k =
     (let q = m div 2 ^ k; r = m mod 2 ^ k
      in if 2 * r < 2 ^ k then q
         else if 2 * r > 2 ^ k then q + 1
         else if even q then q else q + 1)"

definition round_binary64 :: "int \<Rightarrow> int \<Rightarrow> binary64" where
  "round_binary64 m e =
     (let l = bit_length (nat \<bar>m\<bar>)
      in if l \<le> 53 then Binary64 m e
         else Binary64 (round_shift m (l - 53)) (e + int (l - 53)))"

instantiation binary64 :: "{zero,plus}"
begin

definition zero_binary64 :: binary64 where
  "zero_binary64 = Binary64 0 0"

definition plus_binary64 :: "binary64 \<Rightarrow> binary64 \<Rightarrow> binary64" where
  "plus_binary64 x y =
     (let e = min (exponent x) (exponent y)
      in round_binary64 (align x e + align y e) e)"

instance ..

end

text \<open>
  \<open>float_sum_exact acc xs\<close>: adding the items of \<open>xs\<close> to \<open>acc\<close> from left to right, as
  \<open>py_sum\<close> does, no addition rounds: each result stands for the exact sum of its operands.
\<close>

fun float_sum_exact :: "binary64 \<Rightarrow> binary64 list \<Rightarrow> bool" where
  "float_sum_exact acc [] = True"
| "float_sum_exact acc (x # xs) =
     (value_of (acc + x) = value_of acc + value_of x \<and> float_sum_exact (acc + x) xs)"

section \<open>Facts about the dictionary operations\<close>

lemma dict_contains_map_of: "dict_contains d k \<longleftrightarrow> map_of d k \<noteq> None"
  by (simp add: dict_contains_def map_of_eq_None_iff)

lemma dict_getitem_present:
  "dict_contains d k \<Longrightarrow> \<exists>v. map_of d k = Some v \<and> dict_getitem d k = Inr v"
  by (auto simp: dict_contains_map_of dict_getitem_def)

lemma update_absent: "k \<notin> fst ` set al \<Longrightarrow> AList.update k v al = al @ [(k, v)]"
  by (induction al) auto

lemma dict_setitem_absent:
  "\<not> dict_contains d k \<Longrightarrow> dict_setitem d k v = d @ [(k, v)]"
  by (simp add: dict_contains_def dict_setitem_def update_absent)

lemma dict_setitem_keys:
  "dict_contains d k \<Longrightarrow> map fst (dict_setitem d k v) = map fst d"
  by (simp add: dict_contains_def dict_setitem_def update_keys)

lemma dict_delitem_absent: "\<not> dict_contains (dict_delitem d k) k"
  using delete_notin_dom [of k d] by (simp add: dict_contains_def dict_delitem_def)

lemma map_of_dict_setitem: "map_of (dict_setitem d k v) = (map_of d)(k \<mapsto> v)"
  by (simp add: dict_setitem_def update_conv')

lemma dict_setitem_twice: "dict_setitem (dict_setitem d k v) k w = dict_setitem d k w"
  by (simp add: dict_setitem_def)

lemma dict_contains_setitem: "dict_contains (dict_setitem d k v) k"
  by (simp add: dict_contains_def dict_setitem_def dom_update)

section \<open>Facts about the methods\<close>

lemma auto_cancel_loop_length: "length (auto_cancel_loop m d) = length m"
  by (induction m d rule: auto_cancel_loop.induct) simp_all

lemma auto_cancel_loop_nth:
  "i < length m \<Longrightarrow>
     auto_cancel_loop m d ! i =
       (fst (m ! i),
        if active (snd (m ! i)) \<and> renewal_date (snd (m ! i)) \<le> d
        then cancel (snd (m ! i)) else snd (m ! i))"
proof (induction m d arbitrary: i rule: auto_cancel_loop.induct)
  case (1 today)
  then show ?case by simp
next
  case (2 k sub rest today)
  then show ?case by (cases i) simp_all
qed

lemma cancel_fields:
  "cancel s = s\<lparr>active := False\<rparr>" "cancel (cancel s) = cancel s"
  by (simp_all add: cancel_def)

lemma cancel_subscription_present:
  assumes present: "dict_contains m n" and sub: "map_of m n = Some sub"
  shows "cancel_subscription m n = (Inr (), dict_setitem m n (cancel sub))"
proof -
  have "dict_getitem m n = Inr sub"
    using sub by (simp add: dict_getitem_def)
  then show ?thesis
    using present by (simp add: cancel_subscription_def)
qed

lemma renew_in_range:
  assumes "valid_date d" and "d + 30 \<le> MAXORDINAL"
  shows "renew clock s (Some d) = (Inr (), s\<lparr>active := True, renewal_date := d + 30\<rparr>)"
  using assms by (simp add: renew_def date_add_days_def valid_date_def)

lemma renew_subscription_present:
  assumes present: "dict_contains m n" and sub: "map_of m n = Some sub"
  shows "renew_subscription clock m n today =
           (fst (renew clock sub today), dict_setitem m n (snd (renew clock sub today)))"
proof -
  have "dict_getitem m n = Inr sub"
    using sub by (simp add: dict_getitem_def)
  then show ?thesis
    using present by (simp add: renew_subscription_def split: prod.split)
qed

section \<open>Construction\<close>

text \<open>
  Claim C9 says that every subscription is active right after construction. The generated
  constructor takes \<open>active\<close> as an optional fourth argument, so a caller can construct an
  inactive subscription: \<^verbatim>\<open>Subscription("Netflix", 15, date(2025, 1, 1), False)\<close>.
\<close>

theorem Subscription_active_counterexample:
  "\<not> active (Subscription ''Netflix'' (15::int) 739252 (Some False))"
  by (simp add: Subscription_def)

text \<open>
  C9, amended: a subscription constructed without the \<open>active\<close> argument is active right
  after construction; when the argument is given, the flag is the value given.
\<close>

theorem Subscription_active_default:
  "active (Subscription n c d None) \<and>
   active (Subscription n c d (Some b)) = b"
  by (simp add: Subscription_def)

section \<open>Cancelling\<close>

text \<open>
  C8: \<open>cancel\<close> sets \<open>active\<close> to false and leaves name, cost and renewal date as they
  were, and cancelling twice is cancelling once. The manager's \<open>cancel_subscription\<close> on a
  name that is present returns normally, replaces the stored subscription by the same one
  with \<open>active = False\<close>, leaves every other entry and the order of the keys as they were,
  and a second call leaves the manager as the first one left it.
\<close>

theorem cancel_frame:
  "cancel s = s\<lparr>active := False\<rparr> \<and>
   cancel (cancel s) = cancel s \<and>
   (dict_contains m n \<longrightarrow>
      (\<exists>sub. map_of m n = Some sub \<and>
         fst (cancel_subscription m n) = Inr () \<and>
         map_of (snd (cancel_subscription m n)) = (map_of m)(n \<mapsto> sub\<lparr>active := False\<rparr>) \<and>
         map fst (snd (cancel_subscription m n)) = map fst m \<and>
         cancel_subscription (snd (cancel_subscription m n)) n =
           (Inr (), snd (cancel_subscription m n))))"
proof (intro conjI impI)
  show "cancel s = s\<lparr>active := False\<rparr>" by (rule cancel_fields)
  show "cancel (cancel s) = cancel s" by (rule cancel_fields)
next
  assume present: "dict_contains m n"
  then obtain sub where sub: "map_of m n = Some sub"
    by (auto simp: dict_contains_map_of)
  let ?m' = "dict_setitem m n (cancel sub)"
  have first: "cancel_subscription m n = (Inr (), ?m')"
    using present sub by (rule cancel_subscription_present)
  have look: "map_of ?m' = (map_of m)(n \<mapsto> sub\<lparr>active := False\<rparr>)"
    by (simp only: map_of_dict_setitem cancel_fields)
  have keys: "map fst ?m' = map fst m"
    using present by (rule dict_setitem_keys)
  have "map_of ?m' n = Some (cancel sub)"
    by (simp add: map_of_dict_setitem)
  with dict_contains_setitem
  have "cancel_subscription ?m' n = (Inr (), dict_setitem ?m' n (cancel (cancel sub)))"
    by (rule cancel_subscription_present)
  then have second: "cancel_subscription ?m' n = (Inr (), ?m')"
    by (simp add: cancel_def dict_setitem_twice)
  show "\<exists>sub. map_of m n = Some sub \<and>
         fst (cancel_subscription m n) = Inr () \<and>
         map_of (snd (cancel_subscription m n)) = (map_of m)(n \<mapsto> sub\<lparr>active := False\<rparr>) \<and>
         map fst (snd (cancel_subscription m n)) = map fst m \<and>
         cancel_subscription (snd (cancel_subscription m n)) n =
           (Inr (), snd (cancel_subscription m n))"
    unfolding first fst_conv snd_conv
    using sub look keys second by (intro exI [of _ sub] conjI) (rule refl | assumption)+
qed

theorem cancel_frame_witness:
  "dict_contains [(''Hulu'', Subscription ''Hulu'' (12::int) 739252 None)] ''Hulu'' \<and>
   map fst (snd (cancel_subscription
      [(''Hulu'', Subscription ''Hulu'' (12::int) 739252 None)] ''Hulu'')) = [''Hulu'']"
proof -
  have h: "dict_contains [(''Hulu'', Subscription ''Hulu'' (12::int) 739252 None)] ''Hulu''"
    by (simp add: dict_contains_def)
  from cancel_frame [of _ "[(''Hulu'', Subscription ''Hulu'' (12::int) 739252 None)]" "''Hulu''"] h
  show ?thesis by auto
qed

section \<open>Renewing\<close>

text \<open>
  Claim C2 says that \<open>renew\<close> with any supplied date \<open>d\<close> leaves the renewal date at
  \<open>d\<close> plus 30 days. Dates end at 9999-12-31 (ordinal 3652059): for the last 30 dates
  the addition raises \<^verbatim>\<open>OverflowError\<close>, after \<open>active\<close> has been set, and the renewal
  date stays what it was.
\<close>

theorem renew_counterexample:
  "fst (renew 739252 \<lparr>name = ''Netflix'', cost = 15::int, renewal_date = 739252, active = False\<rparr>
          (Some 3652059)) = Inl OverflowError \<and>
   renewal_date (snd (renew 739252
          \<lparr>name = ''Netflix'', cost = 15::int, renewal_date = 739252, active = False\<rparr>
          (Some 3652059))) \<noteq> 3652059 + 30"
  by (simp add: renew_def date_add_days_def MAXORDINAL_def)

text \<open>
  C2, amended: for every date \<open>d\<close> such that \<open>d\<close> plus 30 days is still a date (at most
  9999-12-31), \<open>renew\<close> with \<open>d\<close> returns normally and leaves the subscription active
  with renewal date \<open>d + 30\<close>, whatever its state and stored renewal date were; name
  and cost are unchanged. The manager's \<open>renew_subscription\<close> on a name that is present
  does the same to the stored subscription and leaves the other entries and the order of
  the keys as they were.
\<close>

theorem renew_sets_date:
  assumes "valid_date d" and "d + 30 \<le> MAXORDINAL"
  shows "renew clock s (Some d) = (Inr (), s\<lparr>active := True, renewal_date := d + 30\<rparr>) \<and>
     active (snd (renew clock s (Some d))) \<and>
     renewal_date (snd (renew clock s (Some d))) = d + 30 \<and>
     name (snd (renew clock s (Some d))) = name s \<and>
     cost (snd (renew clock s (Some d))) = cost s \<and>
     (dict_contains m n \<longrightarrow>
        (\<exists>sub. map_of m n = Some sub \<and>
           fst (renew_subscription clock m n (Some d)) = Inr () \<and>
           map_of (snd (renew_subscription clock m n (Some d))) =
             (map_of m)(n \<mapsto> sub\<lparr>active := True, renewal_date := d + 30\<rparr>) \<and>
           map fst (snd (renew_subscription clock m n (Some d))) = map fst m))"
proof (intro conjI impI)
  note r = renew_in_range [OF assms]
  show "renew clock s (Some d) = (Inr (), s\<lparr>active := True, renewal_date := d + 30\<rparr>)"
    by (rule r)
  show "active (snd (renew clock s (Some d)))" by (simp add: r)
  show "renewal_date (snd (renew clock s (Some d))) = d + 30" by (simp add: r)
  show "name (snd (renew clock s (Some d))) = name s" by (simp add: r)
  show "cost (snd (renew clock s (Some d))) = cost s" by (simp add: r)
next
  assume present: "dict_contains m n"
  then obtain sub where sub: "map_of m n = Some sub"
    by (auto simp: dict_contains_map_of)
  let ?sub' = "sub\<lparr>active := True, renewal_date := d + 30\<rparr>"
  have call: "renew_subscription clock m n (Some d) = (Inr (), dict_setitem m n ?sub')"
    by (simp add: renew_subscription_present [OF present sub] renew_in_range [OF assms])
  have look: "map_of (dict_setitem m n ?sub') = (map_of m)(n \<mapsto> ?sub')"
    by (rule map_of_dict_setitem)
  have keys: "map fst (dict_setitem m n ?sub') = map fst m"
    using present by (rule dict_setitem_keys)
  show "\<exists>sub. map_of m n = Some sub \<and>
           fst (renew_subscription clock m n (Some d)) = Inr () \<and>
           map_of (snd (renew_subscription clock m n (Some d))) =
             (map_of m)(n \<mapsto> sub\<lparr>active := True, renewal_date := d + 30\<rparr>) \<and>
           map fst (snd (renew_subscription clock m n (Some d))) = map fst m"
    unfolding call fst_conv snd_conv
    using sub look keys by (intro exI [of _ sub] conjI) (rule refl | assumption)+
qed

theorem renew_sets_date_witness:
  "valid_date 739252 \<and> 739252 + 30 \<le> MAXORDINAL \<and>
   renew 1 \<lparr>name = ''Netflix'', cost = 15::int, renewal_date = 739252, active = False\<rparr>
       (Some 739252) =
     (Inr (), \<lparr>name = ''Netflix'', cost = 15, renewal_date = 739282, active = True\<rparr>) \<and>
   dict_contains [(''Netflix'', \<lparr>name = ''Netflix'', cost = 15::int, renewal_date = 739252, active = False\<rparr>)] ''Netflix'' \<and>
   fst (renew_subscription 1
     [(''Netflix'', \<lparr>name = ''Netflix'', cost = 15::int, renewal_date = 739252, active = False\<rparr>)]
     ''Netflix'' (Some 739252)) = Inr ()"
proof -
  have h1: "valid_date 739252" by (simp add: valid_date_def MAXORDINAL_def)
  have h2: "739252 + 30 \<le> MAXORDINAL" by (simp add: MAXORDINAL_def)
  have h3: "dict_contains [(''Netflix'', \<lparr>name = ''Netflix'', cost = 15::int, renewal_date = 739252, active = False\<rparr>)] ''Netflix''"
    by (simp add: dict_contains_def)
  from renew_sets_date [OF h1 h2, of 1
      "\<lparr>name = ''Netflix'', cost = 15::int, renewal_date = 739252, active = False\<rparr>"
      "[(''Netflix'', \<lparr>name = ''Netflix'', cost = 15::int, renewal_date = 739252, active = False\<rparr>)]"
      "''Netflix''"] h1 h2 h3
  show ?thesis by auto
qed

section \<open>Adding\<close>

text \<open>
  C3: \<open>add_subscription\<close> raises \<^verbatim>\<open>ValueError\<close> exactly when the name of the subscription
  is already a key of the dict, and then the manager is left as it was; when the name is
  fresh the call returns normally and the subscription is stored under its name, as the
  last entry, with all other entries as they were.
\<close>

theorem add_subscription_duplicate:
  "(fst (add_subscription m s) = Inl ValueError \<longleftrightarrow> dict_contains m (name s)) \<and>
   (dict_contains m (name s) \<longrightarrow> add_subscription m s = (Inl ValueError, m)) \<and>
   (\<not> dict_contains m (name s) \<longrightarrow>
      add_subscription m s = (Inr (), m @ [(name s, s)]) \<and>
      map_of (snd (add_subscription m s)) = (map_of m)(name s \<mapsto> s))"
proof (cases "dict_contains m (name s)")
  case True
  then show ?thesis
    by (simp add: add_subscription_def)
next
  case False
  have call: "add_subscription m s = (Inr (), dict_setitem m (name s) s)"
    using False by (simp add: add_subscription_def)
  have appended: "dict_setitem m (name s) s = m @ [(name s, s)]"
    using False by (rule dict_setitem_absent)
  have look: "map_of (dict_setitem m (name s) s) = (map_of m)(name s \<mapsto> s)"
    by (rule map_of_dict_setitem)
  show ?thesis
    using False look by (simp add: call appended [symmetric])
qed

theorem add_subscription_duplicate_witness:
  "dict_contains [(''Disney'', Subscription ''Disney'' (8::int) 739252 None)] ''Disney'' \<and>
   add_subscription [(''Disney'', Subscription ''Disney'' (8::int) 739252 None)]
       (Subscription ''Disney'' 9 739252 None) =
     (Inl ValueError, [(''Disney'', Subscription ''Disney'' 8 739252 None)]) \<and>
   \<not> dict_contains [(''Disney'', Subscription ''Disney'' (8::int) 739252 None)] ''Hulu'' \<and>
   add_subscription [(''Disney'', Subscription ''Disney'' (8::int) 739252 None)]
       (Subscription ''Hulu'' 12 739252 None) =
     (Inr (), [(''Disney'', Subscription ''Disney'' 8 739252 None),
               (''Hulu'', Subscription ''Hulu'' 12 739252 None)])"
proof -
  have n1: "name (Subscription ''Disney'' (9::int) 739252 None) = ''Disney''"
    and n2: "name (Subscription ''Hulu'' (12::int) 739252 None) = ''Hulu''"
    by (simp_all add: Subscription_def)
  have h1: "dict_contains [(''Disney'', Subscription ''Disney'' (8::int) 739252 None)] ''Disney''"
    and h2: "\<not> dict_contains [(''Disney'', Subscription ''Disney'' (8::int) 739252 None)] ''Hulu''"
    by (simp_all add: dict_contains_def)
  from add_subscription_duplicate
         [of "[(''Disney'', Subscription ''Disney'' (8::int) 739252 None)]"
             "Subscription ''Disney'' 9 739252 None"]
       add_subscription_duplicate
         [of "[(''Disney'', Subscription ''Disney'' (8::int) 739252 None)]"
             "Subscription ''Hulu'' 12 739252 None"]
       h1 h2
  show ?thesis by (simp add: n1 n2)
qed

section \<open>Names that are absent\<close>

text \<open>
  C4: for a name that is not a key of the dict, \<open>remove_subscription\<close>,
  \<open>get_subscription\<close>, \<open>renew_subscription\<close> and \<open>cancel_subscription\<close> raise
  \<^verbatim>\<open>KeyError\<close> and leave the manager exactly as it was; removing the same name a second
  time in a row raises \<^verbatim>\<open>KeyError\<close>.
\<close>

theorem absent_name_raises_KeyError:
  "(\<not> dict_contains m n \<longrightarrow>
      remove_subscription m n = (Inl KeyError, m) \<and>
      get_subscription m n = Inl KeyError \<and>
      exec clock m (Get n) = (Inl KeyError, m) \<and>
      renew_subscription clock m n today = (Inl KeyError, m) \<and>
      cancel_subscription m n = (Inl KeyError, m)) \<and>
   remove_subscription (snd (remove_subscription m n)) n =
      (Inl KeyError, snd (remove_subscription m n))"
proof (intro conjI impI)
  assume absent: "\<not> dict_contains m n"
  show "remove_subscription m n = (Inl KeyError, m)"
    using absent by (simp add: remove_subscription_def)
  show "get_subscription m n = Inl KeyError"
    using absent by (simp add: get_subscription_def)
  then show "exec clock m (Get n) = (Inl KeyError, m)"
    by simp
  show "renew_subscription clock m n today = (Inl KeyError, m)"
    using absent by (simp add: renew_subscription_def)
  show "cancel_subscription m n = (Inl KeyError, m)"
    using absent by (simp add: cancel_subscription_def)
next
  have "\<not> dict_contains (snd (remove_subscription m n)) n"
    by (simp add: remove_subscription_def dict_delitem_absent)
  then show "remove_subscription (snd (remove_subscription m n)) n =
      (Inl KeyError, snd (remove_subscription m n))"
    by (simp add: remove_subscription_def [of "snd (remove_subscription m n)"])
qed

theorem absent_name_raises_KeyError_witness:
  "\<not> dict_contains [(''Amazon'', Subscription ''Amazon'' (10::int) 739252 None)] ''Hulu'' \<and>
   remove_subscription [(''Amazon'', Subscription ''Amazon'' (10::int) 739252 None)] ''Hulu'' =
     (Inl KeyError, [(''Amazon'', Subscription ''Amazon'' 10 739252 None)]) \<and>
   cancel_subscription [(''Amazon'', Subscription ''Amazon'' (10::int) 739252 None)] ''Hulu'' =
     (Inl KeyError, [(''Amazon'', Subscription ''Amazon'' 10 739252 None)]) \<and>
   remove_subscription [(''Amazon'', Subscription ''Amazon'' (10::int) 739252 None)] ''Amazon'' =
     (Inr (), []) \<and>
   remove_subscription
     (snd (remove_subscription [(''Amazon'', Subscription ''Amazon'' (10::int) 739252 None)] ''Amazon''))
     ''Amazon'' = (Inl KeyError, [])"
proof -
  have h: "\<not> dict_contains [(''Amazon'', Subscription ''Amazon'' (10::int) 739252 None)] ''Hulu''"
    by (simp add: dict_contains_def)
  have r: "remove_subscription [(''Amazon'', Subscription ''Amazon'' (10::int) 739252 None)] ''Amazon'' =
     (Inr (), [])"
    by (simp add: remove_subscription_def dict_contains_def dict_delitem_def)
  from absent_name_raises_KeyError
         [of "[(''Amazon'', Subscription ''Amazon'' (10::int) 739252 None)]" "''Hulu''"]
       absent_name_raises_KeyError
         [of "[(''Amazon'', Subscription ''Amazon'' (10::int) 739252 None)]" "''Amazon''"]
       h r
  show ?thesis by simp
qed

section \<open>Automatic cancellation\<close>

text \<open>
  C1: \<open>auto_cancel_subscriptions\<close> with a reference date \<open>d\<close> returns normally, keeps the
  keys of the dict and their order, sets \<open>active\<close> to false in exactly the entries that were
  active with a renewal date at or before \<open>d\<close>, and leaves every other entry, the inactive
  ones with a renewal date at or before \<open>d\<close> among them, unchanged in every field.
\<close>

theorem auto_cancel_exact:
  "fst (auto_cancel_subscriptions clock m (Some d)) = Inr () \<and>
   map fst (snd (auto_cancel_subscriptions clock m (Some d))) = map fst m \<and>
   (\<forall>i < length m.
      snd (snd (auto_cancel_subscriptions clock m (Some d)) ! i) =
        (if active (snd (m ! i)) \<and> renewal_date (snd (m ! i)) \<le> d
         then (snd (m ! i))\<lparr>active := False\<rparr>
         else snd (m ! i)))"
proof -
  have res: "auto_cancel_subscriptions clock m (Some d) = (Inr (), auto_cancel_loop m d)"
    by (simp add: auto_cancel_subscriptions_def)
  have keys: "map fst (auto_cancel_loop m d) = map fst m"
    by (rule nth_equalityI) (simp_all add: auto_cancel_loop_length auto_cancel_loop_nth)
  show ?thesis
    unfolding res fst_conv snd_conv
    using keys by (simp add: auto_cancel_loop_nth cancel_def)
qed

theorem auto_cancel_exact_witness:
  "snd (snd (auto_cancel_subscriptions 1
     [(''PastService'', \<lparr>name = ''PastService'', cost = 5::int, renewal_date = 739251, active = True\<rparr>),
      (''FutureService'', \<lparr>name = ''FutureService'', cost = 5, renewal_date = 739253, active = True\<rparr>),
      (''OldService'', \<lparr>name = ''OldService'', cost = 7, renewal_date = 739251, active = False\<rparr>)]
     (Some 739252)) ! 0) =
     \<lparr>name = ''PastService'', cost = 5, renewal_date = 739251, active = False\<rparr> \<and>
   snd (snd (auto_cancel_subscriptions 1
     [(''PastService'', \<lparr>name = ''PastService'', cost = 5::int, renewal_date = 739251, active = True\<rparr>),
      (''FutureService'', \<lparr>name = ''FutureService'', cost = 5, renewal_date = 739253, active = True\<rparr>),
      (''OldService'', \<lparr>name = ''OldService'', cost = 7, renewal_date = 739251, active = False\<rparr>)]
     (Some 739252)) ! 1) =
     \<lparr>name = ''FutureService'', cost = 5, renewal_date = 739253, active = True\<rparr> \<and>
   snd (snd (auto_cancel_subscriptions 1
     [(''PastService'', \<lparr>name = ''PastService'', cost = 5::int, renewal_date = 739251, active = True\<rparr>),
      (''FutureService'', \<lparr>name = ''FutureService'', cost = 5, renewal_date = 739253, active = True\<rparr>),
      (''OldService'', \<lparr>name = ''OldService'', cost = 7, renewal_date = 739251, active = False\<rparr>)]
     (Some 739252)) ! 2) =
     \<lparr>name = ''OldService'', cost = 7, renewal_date = 739251, active = False\<rparr>"
  (is "snd (snd ?call ! 0) = _ \<and> snd (snd ?call ! 1) = _ \<and> snd (snd ?call ! 2) = _")
proof -
  let ?m = "[(''PastService'', \<lparr>name = ''PastService'', cost = 5::int, renewal_date = 739251, active = True\<rparr>),
      (''FutureService'', \<lparr>name = ''FutureService'', cost = 5, renewal_date = 739253, active = True\<rparr>),
      (''OldService'', \<lparr>name = ''OldService'', cost = 7, renewal_date = 739251, active = False\<rparr>)]"
  from auto_cancel_exact [of 1 ?m 739252]
  have each: "\<forall>i < length ?m.
      snd (snd ?call ! i) =
        (if active (snd (?m ! i)) \<and> renewal_date (snd (?m ! i)) \<le> 739252
         then (snd (?m ! i))\<lparr>active := False\<rparr>
         else snd (?m ! i))"
    by (rule conjunct2 [OF conjunct2])
  have "0 < length ?m" "1 < length ?m" "2 < length ?m"
    by simp_all
  with each [rule_format, of 0] each [rule_format, of 1] each [rule_format, of 2]
  show ?thesis
    by simp
qed

section \<open>Totals\<close>





section \<open>Keys and names\<close>

lemma name_cancel: "name (cancel s) = name s"
  by (simp add: cancel_def)

lemma name_renew: "name (snd (renew clock s today)) = name s"
  by (simp add: renew_def Let_def split: sum.split)

lemma keys_auto_cancel_loop: "map fst (auto_cancel_loop m d) = map fst m"
  by (induction m d rule: auto_cancel_loop.induct) simp_all

lemma keys_add_subscription:
  "map fst (snd (add_subscription m s)) =
     (if dict_contains m (name s) then map fst m else map fst m @ [name s])"
  by (simp add: add_subscription_def dict_setitem_absent)

lemma keys_remove_subscription:
  "map fst (snd (remove_subscription m n)) = removeAll n (map fst m)"
  by (simp add: remove_subscription_def dict_delitem_def delete_keys dict_contains_def)

lemma keys_cancel_subscription: "map fst (snd (cancel_subscription m n)) = map fst m"
  by (simp add: cancel_subscription_def dict_setitem_keys split: sum.split)

lemma keys_renew_subscription: "map fst (snd (renew_subscription clock m n today)) = map fst m"
  by (simp add: renew_subscription_def dict_setitem_keys split: sum.split prod.split)

lemma keys_auto_cancel_subscriptions:
  "map fst (snd (auto_cancel_subscriptions clock m today)) = map fst m"
  by (simp add: auto_cancel_subscriptions_def keys_auto_cancel_loop)

lemma snd_returning_none: "snd (returning_none r) = snd r"
  by (simp add: returning_none_def split: prod.split sum.split)

lemma keys_exec:
  "map fst (snd (exec clock m c)) =
     (case c of
        Add s \<Rightarrow> if dict_contains m (name s) then map fst m else map fst m @ [name s]
      | Remove n \<Rightarrow> removeAll n (map fst m)
      | _ \<Rightarrow> map fst m)"
  by (cases c)
    (simp_all add: snd_returning_none keys_add_subscription keys_remove_subscription
      keys_cancel_subscription keys_renew_subscription keys_auto_cancel_subscriptions
      split: sum.split)

section \<open>The invariant of the dict\<close>

lemma manager_inv_iff:
  "manager_inv m \<longleftrightarrow> (\<forall>(k, sub) \<in> set m. k = name sub) \<and> distinct (map fst m)"
proof (cases "\<forall>(k, sub) \<in> set m. k = name sub")
  case True
  then have eq: "map (\<lambda>(k, sub). name sub) m = map fst m"
    by (induction m) auto
  show ?thesis
    unfolding manager_inv_def eq by simp
next
  case False
  then show ?thesis
    unfolding manager_inv_def by blast
qed

lemma manager_inv_init: "manager_inv init_manager"
  by (simp add: manager_inv_def init_manager_def)

lemma set_update_subset: "set (AList.update k v al) \<subseteq> insert (k, v) (set al)"
  by (induction al) auto

lemma manager_inv_setitem:
  assumes "manager_inv m" and "name v = k"
  shows "manager_inv (dict_setitem m k v)"
proof -
  from assms(1) have names: "\<forall>(k, sub) \<in> set m. k = name sub" and keys: "distinct (map fst m)"
    by (simp_all add: manager_inv_iff)
  have "\<forall>(k', sub) \<in> set (dict_setitem m k v). k' = name sub"
    using names assms(2) set_update_subset [of k v m]
    by (auto simp: dict_setitem_def)
  moreover have "distinct (map fst (dict_setitem m k v))"
    using keys by (simp add: dict_setitem_def distinct_update)
  ultimately show ?thesis
    by (simp add: manager_inv_iff)
qed

lemma manager_inv_delitem:
  assumes "manager_inv m"
  shows "manager_inv (dict_delitem m k)"
proof -
  from assms have names: "\<forall>(k, sub) \<in> set m. k = name sub" and keys: "distinct (map fst m)"
    by (simp_all add: manager_inv_iff)
  have "\<forall>(k', sub) \<in> set (dict_delitem m k). k' = name sub"
    using names by (auto simp: dict_delitem_def AList.delete_eq)
  moreover have "distinct (map fst (dict_delitem m k))"
    using keys by (simp add: dict_delitem_def distinct_delete)
  ultimately show ?thesis
    by (simp add: manager_inv_iff)
qed

lemma names_auto_cancel_loop:
  "\<forall>(k, sub) \<in> set m. k = name sub \<Longrightarrow> \<forall>(k, sub) \<in> set (auto_cancel_loop m d). k = name sub"
  by (induction m d rule: auto_cancel_loop.induct) (simp_all add: name_cancel)

lemma manager_inv_auto_cancel_loop:
  assumes "manager_inv m"
  shows "manager_inv (auto_cancel_loop m d)"
proof -
  from assms have names: "\<forall>(k, sub) \<in> set m. k = name sub" and keys: "distinct (map fst m)"
    by (simp_all add: manager_inv_iff)
  from names have "\<forall>(k, sub) \<in> set (auto_cancel_loop m d). k = name sub"
    by (rule names_auto_cancel_loop)
  moreover from keys have "distinct (map fst (auto_cancel_loop m d))"
    by (simp add: keys_auto_cancel_loop)
  ultimately show ?thesis
    by (simp add: manager_inv_iff)
qed

lemma manager_inv_lookup:
  assumes "manager_inv m" and "map_of m k = Some sub"
  shows "name sub = k"
proof -
  from assms(2) have "(k, sub) \<in> set m"
    by (rule map_of_SomeD)
  with assms(1) show ?thesis
    by (auto simp: manager_inv_iff)
qed

lemma manager_inv_add: "manager_inv m \<Longrightarrow> manager_inv (snd (add_subscription m s))"
  by (simp add: add_subscription_def manager_inv_setitem)

lemma manager_inv_remove: "manager_inv m \<Longrightarrow> manager_inv (snd (remove_subscription m n))"
  by (simp add: remove_subscription_def manager_inv_delitem)

lemma manager_inv_auto_cancel:
  "manager_inv m \<Longrightarrow> manager_inv (snd (auto_cancel_subscriptions clock m today))"
  by (simp add: auto_cancel_subscriptions_def manager_inv_auto_cancel_loop)

lemma manager_inv_cancel:
  assumes "manager_inv m"
  shows "manager_inv (snd (cancel_subscription m n))"
proof (cases "map_of m n")
  case None
  then show ?thesis
    using assms by (simp add: cancel_subscription_def dict_getitem_def)
next
  case (Some sub)
  then have "name (cancel sub) = n"
    using assms by (simp add: name_cancel manager_inv_lookup)
  with assms have "manager_inv (dict_setitem m n (cancel sub))"
    by (rule manager_inv_setitem)
  then show ?thesis
    using assms Some by (simp add: cancel_subscription_def dict_getitem_def)
qed

lemma manager_inv_renew:
  assumes "manager_inv m"
  shows "manager_inv (snd (renew_subscription clock m n today))"
proof (cases "map_of m n")
  case None
  then show ?thesis
    using assms by (simp add: renew_subscription_def dict_getitem_def)
next
  case (Some sub)
  obtain r sub' where rn: "renew clock sub today = (r, sub')"
    by (cases "renew clock sub today")
  have "name sub' = name sub"
    using name_renew [of clock sub today] by (simp add: rn)
  then have "name sub' = n"
    using assms Some by (simp add: manager_inv_lookup)
  with assms have "manager_inv (dict_setitem m n sub')"
    by (rule manager_inv_setitem)
  then show ?thesis
    using assms Some by (simp add: renew_subscription_def dict_getitem_def rn)
qed

lemma manager_inv_exec:
  assumes "manager_inv m"
  shows "manager_inv (snd (exec clock m c))"
  using assms
  by (cases c)
    (simp_all add: snd_returning_none manager_inv_add manager_inv_remove manager_inv_auto_cancel
      manager_inv_cancel manager_inv_renew split: sum.split)

lemma manager_inv_run_from: "manager_inv m \<Longrightarrow> manager_inv (run_from m calls)"
proof (induction calls arbitrary: m)
  case Nil
  then show ?case by (simp add: run_from_def)
next
  case (Cons call calls)
  obtain clock c where call: "call = (clock, c)"
    by (cases call)
  have "run_from m (call # calls) = run_from (snd (exec clock m c)) calls"
    by (simp add: run_from_def call)
  with Cons show ?case
    by (simp add: manager_inv_exec)
qed

lemma manager_inv_run: "manager_inv (run calls)"
  by (simp add: run_def manager_inv_run_from manager_inv_init)

text \<open>
  C7: the invariant holds for a fresh manager, every call of a public method preserves it,
  whether the call returns or raises, and so it holds after every run of calls: each key is
  the name of the subscription stored under it and no two entries share a name.
\<close>

theorem keys_equal_names_invariant:
  "manager_inv init_manager \<and>
   (manager_inv m \<longrightarrow> manager_inv (snd (exec clock m c))) \<and>
   manager_inv (run calls)"
  using manager_inv_init manager_inv_exec manager_inv_run by (intro conjI impI)

theorem keys_equal_names_invariant_witness:
  "manager_inv [(''Hulu'', Subscription ''Hulu'' (12::int) 739252 None)] \<and>
   manager_inv (snd (exec 739252 [(''Hulu'', Subscription ''Hulu'' (12::int) 739252 None)]
       (Renew ''Hulu'' None))) \<and>
   manager_inv (run [(739252, Add (Subscription ''Hulu'' (12::int) 739252 None)),
                     (739252, Add (Subscription ''Hulu'' 13 739252 None)),
                     (739252, AutoCancel None),
                     (739253, Remove ''Hulu'')])"
proof -
  have h: "manager_inv [(''Hulu'', Subscription ''Hulu'' (12::int) 739252 None)]"
    by (simp add: manager_inv_def Subscription_def)
  note inv = keys_equal_names_invariant
      [of "[(''Hulu'', Subscription ''Hulu'' (12::int) 739252 None)]" 739252 "Renew ''Hulu'' None"
          "[(739252, Add (Subscription ''Hulu'' (12::int) 739252 None)),
            (739252, Add (Subscription ''Hulu'' 13 739252 None)),
            (739252, AutoCancel None),
            (739253, Remove ''Hulu'')]"]
  from inv have step: "manager_inv [(''Hulu'', Subscription ''Hulu'' (12::int) 739252 None)] \<longrightarrow>
      manager_inv (snd (exec 739252 [(''Hulu'', Subscription ''Hulu'' (12::int) 739252 None)]
       (Renew ''Hulu'' None)))"
    by (rule conjunct1 [OF conjunct2])
  from inv have reach: "manager_inv (run [(739252, Add (Subscription ''Hulu'' (12::int) 739252 None)),
                     (739252, Add (Subscription ''Hulu'' 13 739252 None)),
                     (739252, AutoCancel None),
                     (739253, Remove ''Hulu'')])"
    by (rule conjunct2 [OF conjunct2])
  from h step [rule_format, OF h] reach show ?thesis
    by (intro conjI)
qed

section \<open>Insertion order\<close>

lemma in_creation_order_later:
  assumes "in_creation_order t b ks"
  shows "in_creation_order (Suc t) b ks"
  using assms unfolding in_creation_order_def by (meson less_Suc_eq)

lemma in_creation_order_append:
  assumes ord: "in_creation_order t b ks" and fresh: "b k = None"
  shows "in_creation_order (Suc t) (b(k \<mapsto> t)) (ks @ [k])"
proof -
  from ord have keys: "set ks = dom b"
    and srt: "sorted_wrt (\<lambda>k k'. the (b k) < the (b k')) ks"
    and bound: "\<And>k i. b k = Some i \<Longrightarrow> i < t"
    unfolding in_creation_order_def by simp_all
  from keys fresh have notin: "k \<notin> set ks"
    by (auto simp: dom_def)
  have "set (ks @ [k]) = dom (b(k \<mapsto> t))"
    using keys by auto
  moreover have "sorted_wrt (\<lambda>x y. the ((b(k \<mapsto> t)) x) < the ((b(k \<mapsto> t)) y)) ks"
    using srt
  proof (rule sorted_wrt_mono_rel [rotated])
    fix x y
    assume "x \<in> set ks" "y \<in> set ks" "the (b x) < the (b y)"
    with notin show "the ((b(k \<mapsto> t)) x) < the ((b(k \<mapsto> t)) y)"
      by auto
  qed
  moreover have "the ((b(k \<mapsto> t)) x) < the ((b(k \<mapsto> t)) k)" if "x \<in> set ks" for x
  proof -
    from that keys obtain i where "b x = Some i"
      by (auto simp: dom_def)
    with bound [of x i] that notin show ?thesis
      by auto
  qed
  moreover have "i < Suc t" if "(b(k \<mapsto> t)) x = Some i" for x i
    using that bound [of x i] by (cases "x = k") auto
  ultimately show ?thesis
    unfolding in_creation_order_def by (simp add: sorted_wrt_append)
qed

lemma in_creation_order_remove:
  assumes ord: "in_creation_order t b ks"
  shows "in_creation_order (Suc t) (b(n := None)) (removeAll n ks)"
proof -
  from ord have keys: "set ks = dom b"
    and srt: "sorted_wrt (\<lambda>k k'. the (b k) < the (b k')) ks"
    and bound: "\<And>k i. b k = Some i \<Longrightarrow> i < t"
    unfolding in_creation_order_def by simp_all
  have "set (removeAll n ks) = dom (b(n := None))"
    using keys by auto
  moreover have "sorted_wrt (\<lambda>x y. the ((b(n := None)) x) < the ((b(n := None)) y)) (removeAll n ks)"
  proof -
    have "sorted_wrt (\<lambda>k k'. the (b k) < the (b k')) (removeAll n ks)"
      using srt by (simp add: removeAll_filter_not_eq sorted_wrt_filter)
    then show ?thesis
    proof (rule sorted_wrt_mono_rel [rotated])
      fix x y
      assume "x \<in> set (removeAll n ks)" "y \<in> set (removeAll n ks)" "the (b x) < the (b y)"
      then show "the ((b(n := None)) x) < the ((b(n := None)) y)"
        by auto
    qed
  qed
  moreover have "i < Suc t" if "(b(n := None)) x = Some i" for x i
    using that bound [of x i] by (cases "x = n") auto
  ultimately show ?thesis
    unfolding in_creation_order_def by simp
qed

lemma in_creation_order_exec:
  assumes ord: "in_creation_order t b (map fst m)"
  shows "in_creation_order (Suc t) (created_step t b c) (map fst (snd (exec clock m c)))"
proof (cases c)
  case (Add s)
  from ord have keys: "set (map fst m) = dom b"
    unfolding in_creation_order_def by simp
  show ?thesis
  proof (cases "dict_contains m (name s)")
    case True
    with keys have present: "b (name s) \<noteq> None"
      by (auto simp: dict_contains_def dom_def)
    have "map fst (snd (exec clock m c)) = map fst m"
      unfolding keys_exec using True by (simp add: Add)
    moreover have "created_step t b c = b"
      using present by (auto simp: Add)
    ultimately show ?thesis
      using in_creation_order_later [OF ord] by simp
  next
    case False
    with keys have fresh: "b (name s) = None"
      by (auto simp: dict_contains_def dom_def)
    have "map fst (snd (exec clock m c)) = map fst m @ [name s]"
      unfolding keys_exec using False by (simp add: Add)
    moreover have "created_step t b c = b(name s \<mapsto> t)"
      using fresh by (simp add: Add)
    ultimately show ?thesis
      using in_creation_order_append [OF ord fresh] by simp
  qed
next
  case (Remove n)
  have "map fst (snd (exec clock m c)) = removeAll n (map fst m)"
    unfolding keys_exec by (simp add: Remove)
  moreover have "created_step t b c = b(n := None)"
    by (simp add: Remove)
  ultimately show ?thesis
    using in_creation_order_remove [OF ord] by simp
next
  case (AutoCancel today)
  have "map fst (snd (exec clock m c)) = map fst m"
    unfolding keys_exec by (simp add: AutoCancel)
  moreover have "created_step t b c = b"
    by (simp add: AutoCancel)
  ultimately show ?thesis
    using in_creation_order_later [OF ord] by simp
next
  case (Renew n today)
  have "map fst (snd (exec clock m c)) = map fst m"
    unfolding keys_exec by (simp add: Renew)
  moreover have "created_step t b c = b"
    by (simp add: Renew)
  ultimately show ?thesis
    using in_creation_order_later [OF ord] by simp
next
  case (Cancel n)
  have "map fst (snd (exec clock m c)) = map fst m"
    unfolding keys_exec by (simp add: Cancel)
  moreover have "created_step t b c = b"
    by (simp add: Cancel)
  ultimately show ?thesis
    using in_creation_order_later [OF ord] by simp
next
  case (Get n)
  have "map fst (snd (exec clock m c)) = map fst m"
    unfolding keys_exec by (simp add: Get)
  moreover have "created_step t b c = b"
    by (simp add: Get)
  ultimately show ?thesis
    using in_creation_order_later [OF ord] by simp
next
  case (ListSubs active_only)
  have "map fst (snd (exec clock m c)) = map fst m"
    unfolding keys_exec by (simp add: ListSubs)
  moreover have "created_step t b c = b"
    by (simp add: ListSubs)
  ultimately show ?thesis
    using in_creation_order_later [OF ord] by simp
next
  case (TotalMonthlyCost active_only)
  have "map fst (snd (exec clock m c)) = map fst m"
    unfolding keys_exec by (simp add: TotalMonthlyCost)
  moreover have "created_step t b c = b"
    by (simp add: TotalMonthlyCost)
  ultimately show ?thesis
    using in_creation_order_later [OF ord] by simp
next
  case TotalSavings
  have "map fst (snd (exec clock m c)) = map fst m"
    unfolding keys_exec by (simp add: TotalSavings)
  moreover have "created_step t b c = b"
    by (simp add: TotalSavings)
  ultimately show ?thesis
    using in_creation_order_later [OF ord] by simp
qed

lemma run_from_Cons:
  "run_from m ((clock, c) # calls) = run_from (snd (exec clock m c)) calls"
  by (simp add: run_from_def)

lemma in_creation_order_run_from:
  "in_creation_order t b (map fst m) \<Longrightarrow>
     in_creation_order (t + length calls) (created_from t b calls) (map fst (run_from m calls))"
proof (induction calls arbitrary: t b m)
  case Nil
  then show ?case by (simp add: run_from_def)
next
  case (Cons call calls)
  obtain clock c where call: "call = (clock, c)"
    by (cases call)
  from Cons.prems
  have "in_creation_order (Suc t) (created_step t b c) (map fst (snd (exec clock m c)))"
    by (rule in_creation_order_exec)
  then have "in_creation_order (Suc t + length calls)
      (created_from (Suc t) (created_step t b c) calls)
      (map fst (run_from (snd (exec clock m c)) calls))"
    by (rule Cons.IH)
  then show ?case
    unfolding call run_from_Cons by simp
qed

lemma in_creation_order_run:
  "in_creation_order (length calls) (created_at calls) (map fst (run calls))"
proof -
  have "in_creation_order 0 Map.empty (map fst (init_manager :: 'a manager))"
    by (simp add: in_creation_order_def init_manager_def)
  from in_creation_order_run_from [OF this, of calls] show ?thesis
    by (simp add: run_def created_at_def)
qed

lemma names_of_values:
  assumes "manager_inv m"
  shows "map name (map snd m) = map fst m"
proof -
  from assms have "\<forall>(k, sub) \<in> set m. k = name sub"
    by (simp add: manager_inv_iff)
  then show ?thesis
    by (induction m) auto
qed

lemma values_after_remove:
  assumes "manager_inv m"
  shows "map snd (snd (remove_subscription m n)) = filter (\<lambda>sub. name sub \<noteq> n) (map snd m)"
proof -
  from assms have names: "\<forall>(k, sub) \<in> set m. k = name sub"
    by (simp add: manager_inv_iff)
  have "snd (remove_subscription m n) = AList.delete n m"
    by (simp add: remove_subscription_def dict_delitem_def dict_contains_def)
  also have "\<dots> = filter (\<lambda>p. name (snd p) \<noteq> n) m"
    unfolding AList.delete_eq using names by (intro filter_cong) auto
  finally show ?thesis
    by (simp add: filter_map comp_def)
qed

text \<open>
  C6: after every run of calls, \<open>list_subscriptions\<close> without \<open>active_only\<close> returns all
  stored subscriptions; their names are exactly the names that have an entry, and they come
  in the order of the successful add calls that created the entries. With \<open>active_only\<close>
  it returns the active ones among them in the same relative order. Removing a name leaves
  the remaining subscriptions in the order they had.
\<close>

theorem list_in_insertion_order:
  "list_subscriptions (run calls) False = map snd (run calls) \<and>
   set (map name (list_subscriptions (run calls) False)) = dom (created_at calls) \<and>
   sorted_wrt (\<lambda>s s'. the (created_at calls (name s)) < the (created_at calls (name s')))
     (list_subscriptions (run calls) False) \<and>
   list_subscriptions (run calls) True = filter active (list_subscriptions (run calls) False) \<and>
   list_subscriptions (snd (remove_subscription (run calls) n)) False =
     filter (\<lambda>s. name s \<noteq> n) (list_subscriptions (run calls) False)"
proof -
  have all: "list_subscriptions m False = map snd m" for m :: "'a manager"
    by (simp add: list_subscriptions_def dict_values_def)
  have inv: "manager_inv (run calls)"
    by (rule manager_inv_run)
  have names: "map name (map snd (run calls)) = map fst (run calls)"
    using inv by (rule names_of_values)
  have ord: "in_creation_order (length calls) (created_at calls) (map fst (run calls))"
    by (rule in_creation_order_run)
  have live: "set (map name (map snd (run calls))) = dom (created_at calls)"
    unfolding names using ord by (simp add: in_creation_order_def)
  have "sorted_wrt (\<lambda>k k'. the (created_at calls k) < the (created_at calls k'))
      (map name (map snd (run calls)))"
    unfolding names using ord by (simp add: in_creation_order_def)
  then have sorted: "sorted_wrt (\<lambda>s s'. the (created_at calls (name s)) < the (created_at calls (name s')))
      (map snd (run calls))"
    by (simp only: sorted_wrt_map)
  have act: "list_subscriptions (run calls) True = filter active (map snd (run calls))"
    by (simp add: list_subscriptions_def dict_values_def)
  have rem: "map snd (snd (remove_subscription (run calls) n)) =
      filter (\<lambda>s. name s \<noteq> n) (map snd (run calls))"
    using inv by (rule values_after_remove)
  show ?thesis
    unfolding all using live sorted act rem by (intro conjI) (rule refl | assumption)+
qed

theorem list_in_insertion_order_witness:
  "map name (list_subscriptions
     (run [(739252, Add (Subscription ''Hulu'' (12::int) 739252 None)),
           (739252, Add (Subscription ''Disney'' 8 739252 None)),
           (739252, Remove ''Hulu''),
           (739252, Add (Subscription ''Hulu'' 13 739252 None))]) False) = [''Disney'', ''Hulu''] \<and>
   created_at [(739252, Add (Subscription ''Hulu'' (12::int) 739252 None)),
           (739252, Add (Subscription ''Disney'' 8 739252 None)),
           (739252, Remove ''Hulu''),
           (739252, Add (Subscription ''Hulu'' 13 739252 None))] ''Disney'' = Some 1 \<and>
   created_at [(739252, Add (Subscription ''Hulu'' (12::int) 739252 None)),
           (739252, Add (Subscription ''Disney'' 8 739252 None)),
           (739252, Remove ''Hulu''),
           (739252, Add (Subscription ''Hulu'' 13 739252 None))] ''Hulu'' = Some 3 \<and>
   sorted_wrt
     (\<lambda>s s'.
        the (created_at [(739252, Add (Subscription ''Hulu'' (12::int) 739252 None)),
           (739252, Add (Subscription ''Disney'' 8 739252 None)),
           (739252, Remove ''Hulu''),
           (739252, Add (Subscription ''Hulu'' 13 739252 None))] (name s))
        < the (created_at [(739252, Add (Subscription ''Hulu'' (12::int) 739252 None)),
           (739252, Add (Subscription ''Disney'' 8 739252 None)),
           (739252, Remove ''Hulu''),
           (739252, Add (Subscription ''Hulu'' 13 739252 None))] (name s')))
     (list_subscriptions
       (run [(739252, Add (Subscription ''Hulu'' (12::int) 739252 None)),
           (739252, Add (Subscription ''Disney'' 8 739252 None)),
           (739252, Remove ''Hulu''),
           (739252, Add (Subscription ''Hulu'' 13 739252 None))]) False)"
proof -
  let ?calls = "[(739252, Add (Subscription ''Hulu'' (12::int) 739252 None)),
           (739252, Add (Subscription ''Disney'' 8 739252 None)),
           (739252, Remove ''Hulu''),
           (739252, Add (Subscription ''Hulu'' 13 739252 None))]"
  have final: "run ?calls =
      [(''Disney'', Subscription ''Disney'' 8 739252 None),
       (''Hulu'', Subscription ''Hulu'' 13 739252 None)]"
    by (simp add: run_def run_from_def init_manager_def returning_none_def
        add_subscription_def remove_subscription_def dict_contains_def dict_setitem_def
        dict_delitem_def Subscription_def)
  have listed: "map name (list_subscriptions (run ?calls) False) = [''Disney'', ''Hulu'']"
    unfolding final by (simp add: list_subscriptions_def dict_values_def Subscription_def)
  have c1: "created_at ?calls ''Disney'' = Some 1"
    and c3: "created_at ?calls ''Hulu'' = Some 3"
    by (simp_all add: created_at_def Subscription_def)
  note list_in_insertion_order [of ?calls, THEN conjunct2, THEN conjunct2, THEN conjunct1]
  with listed c1 c3 show ?thesis
    by (intro conjI)
qed

section \<open>The totals of all, active and cancelled subscriptions\<close>

lemma foldl_plus_sum_list: "foldl (+) a xs = a + sum_list (xs :: 'a::monoid_add list)"
  by (induction xs arbitrary: a) (simp_all add: add.assoc)

lemma py_sum_sum_list: "py_sum xs = sum_list (xs :: 'a::monoid_add list)"
  by (simp add: py_sum_def foldl_plus_sum_list)

lemma sum_list_split:
  "sum_list (map f xs) =
     sum_list (map f (filter P xs)) + (sum_list (map f (filter (\<lambda>x. \<not> P x) xs)) :: 'a::comm_monoid_add)"
  by (induction xs) (simp_all add: ac_simps)

lemma float_sums:
  "0 + Binary64 5404319552844595 (-54) = Binary64 5404319552844595 (-54)"
  "Binary64 5404319552844595 (-54) + Binary64 3602879701896397 (-54) = Binary64 4503599627370496 (-53)"
  "Binary64 4503599627370496 (-53) + Binary64 3602879701896397 (-55) = Binary64 5404319552844595 (-53)"
  "Binary64 5404319552844595 (-54) + Binary64 3602879701896397 (-55) = Binary64 7205759403792794 (-54)"
  "0 + Binary64 3602879701896397 (-54) = Binary64 3602879701896397 (-54)"
  "Binary64 7205759403792794 (-54) + Binary64 3602879701896397 (-54) = Binary64 5404319552844596 (-53)"
  by (simp_all add: plus_binary64_def zero_binary64_def round_binary64_def round_shift_def)

text \<open>
  Claim C10 says that the total over all entries is the total over the active entries plus
  the savings. The costs are floats and float addition is not associative. With the
  costs 0.3 (active), 0.2 (cancelled) and 0.1 (active), in this order, the total over
  all entries is \<open>(0.3 + 0.2) + 0.1 = 0.6\<close>, the active total is \<open>0.3 + 0.1 = 0.4\<close>, the
  savings are 0.2, and \<open>0.4 + 0.2\<close> is \<open>0.6000000000000001\<close>, the next double after 0.6.
  (An interpreter whose \<^verbatim>\<open>sum\<close> adds floats with a compensation term returns the same
  three totals at these costs.)
\<close>

theorem total_decomposition_counterexample:
  "\<not> float_eq
     (total_monthly_cost
        [(''A'', \<lparr>name = ''A'', cost = Binary64 5404319552844595 (-54), renewal_date = 739252, active = True\<rparr>),
         (''B'', \<lparr>name = ''B'', cost = Binary64 3602879701896397 (-54), renewal_date = 739252, active = False\<rparr>),
         (''C'', \<lparr>name = ''C'', cost = Binary64 3602879701896397 (-55), renewal_date = 739252, active = True\<rparr>)]
        False)
     (total_monthly_cost
        [(''A'', \<lparr>name = ''A'', cost = Binary64 5404319552844595 (-54), renewal_date = 739252, active = True\<rparr>),
         (''B'', \<lparr>name = ''B'', cost = Binary64 3602879701896397 (-54), renewal_date = 739252, active = False\<rparr>),
         (''C'', \<lparr>name = ''C'', cost = Binary64 3602879701896397 (-55), renewal_date = 739252, active = True\<rparr>)]
        True +
      total_savings
        [(''A'', \<lparr>name = ''A'', cost = Binary64 5404319552844595 (-54), renewal_date = 739252, active = True\<rparr>),
         (''B'', \<lparr>name = ''B'', cost = Binary64 3602879701896397 (-54), renewal_date = 739252, active = False\<rparr>),
         (''C'', \<lparr>name = ''C'', cost = Binary64 3602879701896397 (-55), renewal_date = 739252, active = True\<rparr>)]) \<and>
   total_monthly_cost
     [(''A'', \<lparr>name = ''A'', cost = Binary64 5404319552844595 (-54), renewal_date = 739252, active = True\<rparr>),
      (''B'', \<lparr>name = ''B'', cost = Binary64 3602879701896397 (-54), renewal_date = 739252, active = False\<rparr>),
      (''C'', \<lparr>name = ''C'', cost = Binary64 3602879701896397 (-55), renewal_date = 739252, active = True\<rparr>)]
     False = Binary64 5404319552844595 (-53) \<and>
   total_monthly_cost
     [(''A'', \<lparr>name = ''A'', cost = Binary64 5404319552844595 (-54), renewal_date = 739252, active = True\<rparr>),
      (''B'', \<lparr>name = ''B'', cost = Binary64 3602879701896397 (-54), renewal_date = 739252, active = False\<rparr>),
      (''C'', \<lparr>name = ''C'', cost = Binary64 3602879701896397 (-55), renewal_date = 739252, active = True\<rparr>)]
     True +
   total_savings
     [(''A'', \<lparr>name = ''A'', cost = Binary64 5404319552844595 (-54), renewal_date = 739252, active = True\<rparr>),
      (''B'', \<lparr>name = ''B'', cost = Binary64 3602879701896397 (-54), renewal_date = 739252, active = False\<rparr>),
      (''C'', \<lparr>name = ''C'', cost = Binary64 3602879701896397 (-55), renewal_date = 739252, active = True\<rparr>)]
     = Binary64 5404319552844596 (-53) \<and>
   \<not> float_eq (Binary64 5404319552844595 (-53)) (Binary64 5404319552844596 (-53))"
proof -
  let ?m = "[(''A'', \<lparr>name = ''A'', cost = Binary64 5404319552844595 (-54), renewal_date = 739252, active = True\<rparr>),
      (''B'', \<lparr>name = ''B'', cost = Binary64 3602879701896397 (-54), renewal_date = 739252, active = False\<rparr>),
      (''C'', \<lparr>name = ''C'', cost = Binary64 3602879701896397 (-55), renewal_date = 739252, active = True\<rparr>)]"
  have all: "total_monthly_cost ?m False = Binary64 5404319552844595 (-53)"
    by (simp add: total_monthly_cost_def list_subscriptions_def dict_values_def py_sum_def
        float_sums)
  have act: "total_monthly_cost ?m True = Binary64 7205759403792794 (-54)"
    by (simp add: total_monthly_cost_def list_subscriptions_def dict_values_def py_sum_def
        float_sums)
  have sav: "total_savings ?m = Binary64 3602879701896397 (-54)"
    by (simp add: total_savings_def list_subscriptions_def dict_values_def py_sum_def
        float_sums)
  have parts: "total_monthly_cost ?m True + total_savings ?m = Binary64 5404319552844596 (-53)"
    unfolding act sav by (rule float_sums)
  have differ: "\<not> float_eq (Binary64 5404319552844595 (-53)) (Binary64 5404319552844596 (-53))"
    by (simp add: float_eq_def)
  have "\<not> float_eq (total_monthly_cost ?m False) (total_monthly_cost ?m True + total_savings ?m)"
    unfolding all parts by (rule differ)
  with all parts differ show ?thesis
    by (intro conjI)
qed

lemma value_of_zero: "value_of 0 = 0"
  by (simp add: zero_binary64_def)

lemma value_of_foldl:
  "float_sum_exact acc xs \<Longrightarrow>
     value_of (foldl (+) acc xs) = value_of acc + sum_list (map value_of xs)"
  by (induction xs arbitrary: acc) (simp_all add: add.assoc)

lemma value_of_py_sum:
  "float_sum_exact 0 xs \<Longrightarrow> value_of (py_sum xs) = sum_list (map value_of xs)"
  by (simp add: py_sum_def value_of_foldl value_of_zero)

lemma total_decomposition_exact_arithmetic:
  "total_monthly_cost m False =
     total_monthly_cost m True + (total_savings m :: 'c::comm_monoid_add)"
proof -
  have "sum_list (map cost (dict_values m)) =
      sum_list (map cost (filter active (dict_values m))) +
      sum_list (map cost (filter (\<lambda>sub. \<not> active sub) (dict_values m)))"
    by (rule sum_list_split)
  then show ?thesis
    by (simp add: total_monthly_cost_def total_savings_def list_subscriptions_def
        py_sum_sum_list)
qed

lemma total_decomposition_float:
  assumes all: "float_sum_exact 0 (map cost (list_subscriptions m False))"
    and act: "float_sum_exact 0 (map cost (list_subscriptions m True))"
    and sav: "float_sum_exact 0
        (map cost (filter (\<lambda>sub. \<not> active sub) (list_subscriptions m False)))"
    and final: "float_sum_exact (total_monthly_cost m True) [total_savings m]"
  shows "float_eq (total_monthly_cost m False) (total_monthly_cost m True + total_savings m)"
proof -
  let ?v = "\<lambda>sub. value_of (cost sub)"
  have v_all: "value_of (total_monthly_cost m False) = sum_list (map ?v (dict_values m))"
    using value_of_py_sum [OF all]
    by (simp add: total_monthly_cost_def list_subscriptions_def comp_def)
  have v_act: "value_of (total_monthly_cost m True) =
      sum_list (map ?v (filter active (dict_values m)))"
    using value_of_py_sum [OF act]
    by (simp add: total_monthly_cost_def list_subscriptions_def comp_def)
  have v_sav: "value_of (total_savings m) =
      sum_list (map ?v (filter (\<lambda>sub. \<not> active sub) (dict_values m)))"
    using value_of_py_sum [OF sav]
    by (simp add: total_savings_def list_subscriptions_def comp_def)
  have v_final: "value_of (total_monthly_cost m True + total_savings m) =
      value_of (total_monthly_cost m True) + value_of (total_savings m)"
    using final by simp
  have "sum_list (map ?v (dict_values m)) =
      sum_list (map ?v (filter active (dict_values m))) +
      sum_list (map ?v (filter (\<lambda>sub. \<not> active sub) (dict_values m)))"
    by (rule sum_list_split)
  then have "value_of (total_monthly_cost m False) =
      value_of (total_monthly_cost m True + total_savings m)"
    by (simp only: v_all v_act v_sav v_final)
  then show ?thesis
    by (simp add: float_eq_def)
qed

text \<open>
  C10, amended: the total over all entries is the total over the active entries plus the
  savings whenever no addition rounds. For float costs this is when every addition made
  by the three sums, and the addition of the active total and the savings, is exact, as
  it is for the amounts 10.0 and 20.0; the two sides are then equal as floats. For a cost
  type whose addition is associative and commutative with unit 0 (integer amounts,
  fractions) it is always.
\<close>

theorem total_decomposition_without_rounding:
  "(float_sum_exact 0 (map cost (list_subscriptions mf False)) \<and>
    float_sum_exact 0 (map cost (list_subscriptions mf True)) \<and>
    float_sum_exact 0
      (map cost (filter (\<lambda>sub. \<not> active sub) (list_subscriptions mf False))) \<and>
    float_sum_exact (total_monthly_cost mf True) [total_savings mf] \<longrightarrow>
    float_eq (total_monthly_cost mf False) (total_monthly_cost mf True + total_savings mf)) \<and>
   total_monthly_cost m False =
     total_monthly_cost m True + (total_savings m :: 'c::comm_monoid_add)"
proof (intro conjI impI)
  assume "float_sum_exact 0 (map cost (list_subscriptions mf False)) \<and>
    float_sum_exact 0 (map cost (list_subscriptions mf True)) \<and>
    float_sum_exact 0
      (map cost (filter (\<lambda>sub. \<not> active sub) (list_subscriptions mf False))) \<and>
    float_sum_exact (total_monthly_cost mf True) [total_savings mf]"
  then show "float_eq (total_monthly_cost mf False)
      (total_monthly_cost mf True + total_savings mf)"
    by (intro total_decomposition_float) simp_all
next
  show "total_monthly_cost m False = total_monthly_cost m True + total_savings m"
    by (rule total_decomposition_exact_arithmetic)
qed

theorem total_decomposition_without_rounding_witness:
  "float_eq
     (total_monthly_cost
        [(''Cancelled'', \<lparr>name = ''Cancelled'', cost = Binary64 10 0, renewal_date = 739251, active = False\<rparr>),
         (''Active'', \<lparr>name = ''Active'', cost = Binary64 20 0, renewal_date = 739262, active = True\<rparr>)]
        False)
     (total_monthly_cost
        [(''Cancelled'', \<lparr>name = ''Cancelled'', cost = Binary64 10 0, renewal_date = 739251, active = False\<rparr>),
         (''Active'', \<lparr>name = ''Active'', cost = Binary64 20 0, renewal_date = 739262, active = True\<rparr>)]
        True +
      total_savings
        [(''Cancelled'', \<lparr>name = ''Cancelled'', cost = Binary64 10 0, renewal_date = 739251, active = False\<rparr>),
         (''Active'', \<lparr>name = ''Active'', cost = Binary64 20 0, renewal_date = 739262, active = True\<rparr>)]) \<and>
   float_eq
     (total_monthly_cost
        [(''Cancelled'', \<lparr>name = ''Cancelled'', cost = Binary64 10 0, renewal_date = 739251, active = False\<rparr>),
         (''Active'', \<lparr>name = ''Active'', cost = Binary64 20 0, renewal_date = 739262, active = True\<rparr>)]
        False)
     (Binary64 30 0) \<and>
   total_monthly_cost
     [(''Cancelled'', \<lparr>name = ''Cancelled'', cost = 10::int, renewal_date = 739251, active = False\<rparr>),
      (''Active'', \<lparr>name = ''Active'', cost = 20, renewal_date = 739262, active = True\<rparr>)] False =
   total_monthly_cost
     [(''Cancelled'', \<lparr>name = ''Cancelled'', cost = 10::int, renewal_date = 739251, active = False\<rparr>),
      (''Active'', \<lparr>name = ''Active'', cost = 20, renewal_date = 739262, active = True\<rparr>)] True +
   total_savings
     [(''Cancelled'', \<lparr>name = ''Cancelled'', cost = 10::int, renewal_date = 739251, active = False\<rparr>),
      (''Active'', \<lparr>name = ''Active'', cost = 20, renewal_date = 739262, active = True\<rparr>)]"
proof -
  let ?mf = "[(''Cancelled'', \<lparr>name = ''Cancelled'', cost = Binary64 10 0, renewal_date = 739251, active = False\<rparr>),
         (''Active'', \<lparr>name = ''Active'', cost = Binary64 20 0, renewal_date = 739262, active = True\<rparr>)]"
  let ?mi = "[(''Cancelled'', \<lparr>name = ''Cancelled'', cost = 10::int, renewal_date = 739251, active = False\<rparr>),
      (''Active'', \<lparr>name = ''Active'', cost = 20, renewal_date = 739262, active = True\<rparr>)]"
  note sums = plus_binary64_def zero_binary64_def round_binary64_def round_shift_def
  have act: "total_monthly_cost ?mf True = Binary64 20 0"
    by (simp add: total_monthly_cost_def list_subscriptions_def dict_values_def py_sum_def sums)
  have sav: "total_savings ?mf = Binary64 10 0"
    by (simp add: total_savings_def list_subscriptions_def dict_values_def py_sum_def sums)
  have all: "total_monthly_cost ?mf False = Binary64 30 0"
    by (simp add: total_monthly_cost_def list_subscriptions_def dict_values_def py_sum_def sums)
  have h1: "float_sum_exact 0 (map cost (list_subscriptions ?mf False))"
    by (simp add: list_subscriptions_def dict_values_def sums)
  have h2: "float_sum_exact 0 (map cost (list_subscriptions ?mf True))"
    by (simp add: list_subscriptions_def dict_values_def sums)
  have h3: "float_sum_exact 0
      (map cost (filter (\<lambda>sub. \<not> active sub) (list_subscriptions ?mf False)))"
    by (simp add: list_subscriptions_def dict_values_def sums)
  have h4: "float_sum_exact (total_monthly_cost ?mf True) [total_savings ?mf]"
    unfolding act sav by (simp add: sums)
  note both = total_decomposition_without_rounding [of ?mf ?mi]
  from both h1 h2 h3 h4
  have floats: "float_eq (total_monthly_cost ?mf False)
      (total_monthly_cost ?mf True + total_savings ?mf)"
    by (simp only: simp_thms)
  have thirty: "float_eq (total_monthly_cost ?mf False) (Binary64 30 0)"
    unfolding all by (simp add: float_eq_def)
  from both have ints: "total_monthly_cost ?mi False =
      total_monthly_cost ?mi True + total_savings ?mi"
    by (rule conjunct2)
  from floats thirty ints show ?thesis
    by (intro conjI)
qed

end
